theory Spec2Isabelle
  imports Main "HOL-Library.Word"
begin

section \<open>Buffers, constants and library helpers\<close>

text \<open>
  A Node \<open>Buffer\<close> is a list of bytes. \<open>buff.slice(a, b)\<close> with \<open>0 \<le> a \<le> b\<close> never
  raises: it clips at the end of the buffer, as \<open>take\<close> and \<open>drop\<close> do.
\<close>

type_synonym byte = "8 word"
type_synonym buffer = "byte list"

definition slice :: "nat \<Rightarrow> nat \<Rightarrow> buffer \<Rightarrow> buffer" where
  "slice a b buff = take (b - a) (drop a buff)"

definition ETH_ADDRESS_SIZE :: nat where
  "ETH_ADDRESS_SIZE = 20"

definition HID_PACKET_SIZE :: nat where
  "HID_PACKET_SIZE = 64"

definition secp256k1N :: int where
  "secp256k1N = 0xfffffffffffffffffffffffffffffffebaaedce6af48a03bbfd25e8cd0364141"

definition secp256k1halfN :: int where
  "secp256k1halfN = secp256k1N div 2"

text \<open>\<open>buff.toString('hex')\<close>: two lower-case hexadecimal digits per byte.\<close>

definition hex_digit :: "nat \<Rightarrow> char" where
  "hex_digit n = ''0123456789abcdef'' ! (n mod 16)"

definition toString_hex :: "buffer \<Rightarrow> string" where
  "toString_hex buff = concat (map (\<lambda>x. [hex_digit (unat x div 16), hex_digit (unat x)]) buff)"

text \<open>
  \<open>new BN(buff.toString('hex'), 16)\<close>: the bytes read as one big-endian number;
  the empty buffer gives 0. BN values are unbounded integers.
\<close>

definition bn_of_buffer :: "buffer \<Rightarrow> int" where
  "bn_of_buffer buff = foldl (\<lambda>acc x. acc * 256 + uint x) 0 buff"

text \<open>
  \<open>bn.toBuffer()\<close>: the magnitude in big-endian bytes without leading zeros, and
  one zero byte for 0.
\<close>

fun be_bytes :: "nat \<Rightarrow> buffer" where
  "be_bytes n = (if n < 256 then [of_nat n] else be_bytes (n div 256) @ [of_nat (n mod 256)])"

definition bn_toBuffer :: "int \<Rightarrow> buffer" where
  "bn_toBuffer n = be_bytes (nat \<bar>n\<bar>)"

text \<open>
  \<open>ethereumjsUtil.setLengthLeft(msg, length)\<close>: pads with zero bytes on the left up
  to \<open>length\<close>, and keeps the last \<open>length\<close> bytes of a longer buffer.
\<close>

definition setLengthLeft :: "buffer \<Rightarrow> nat \<Rightarrow> buffer" where
  "setLengthLeft msg n =
     (if length msg < n then replicate (n - length msg) 0 @ msg
      else drop (length msg - n) msg)"

section \<open>Wallet.sign: low-s normalization (EIP-2)\<close>

text \<open>
  Lines 232 to 238 of \<open>Wallet.sign\<close>: \<open>sValue\<close> is read from the buffer \<open>s\<close>; when it
  is greater than \<open>secp256k1halfN\<close> the buffer is replaced by the bytes of
  \<open>secp256k1N - sValue\<close>; in both cases the buffer is then set to 32 bytes.
\<close>

definition normalize_s :: "buffer \<Rightarrow> buffer" where
  "normalize_s s =
     (let sValue = bn_of_buffer s;
          s' = (if sValue > secp256k1halfN then bn_toBuffer (secp256k1N - sValue) else s)
      in setLengthLeft s' 32)"

section \<open>Command channel (class Key)\<close>

datatype error =
    TypeError
  | ReferenceError string
  | Error string
  | LibraryError

definition CMD_DELETE :: byte where
  "CMD_DELETE = 0x4"

definition RES_KEY_CREATED :: byte where
  "RES_KEY_CREATED = 0x1"

definition RES_DUMP_KEYS :: byte where
  "RES_DUMP_KEYS = 0x2"

definition RES_SIGN :: byte where
  "RES_SIGN = 0x3"

definition RES_DONE :: byte where
  "RES_DONE = 0xFF"

text \<open>
  The constructor's \<open>device.on('data', ...)\<close> handler: the first byte of an inbound
  packet selects the event, the rest of the packet (\<open>data.slice(1)\<close>) is its
  argument. A packet with any other first byte, or an empty one, emits nothing.
\<close>

datatype event =
    Ev_key_created buffer
  | Ev_dump_keys buffer
  | Ev_sign buffer
  | Ev_done

definition on_data :: "buffer \<Rightarrow> event option" where
  "on_data data =
     (case data of
        [] \<Rightarrow> None
      | tag # rest \<Rightarrow>
          if tag = RES_KEY_CREATED then Some (Ev_key_created rest)
          else if tag = RES_DUMP_KEYS then Some (Ev_dump_keys rest)
          else if tag = RES_SIGN then Some (Ev_sign rest)
          else if tag = RES_DONE then Some Ev_done
          else None)"

definition has_tag :: "byte \<Rightarrow> buffer \<Rightarrow> bool" where
  "has_tag t data = (case data of [] \<Rightarrow> False | tag # rest \<Rightarrow> tag = t)"

subsection \<open>Key.createKey\<close>

text \<open>
  The state of one call: the local \<open>address\<close> (\<open>None\<close> is \<open>null\<close>), whether the
  \<open>once('key-created')\<close> and \<open>once('done')\<close> listeners are still installed, and the
  value the promise resolved with (\<open>None\<close> while it is pending). A \<open>once\<close>
  listener is removed when it first runs.
\<close>

record create_op =
  create_address :: "string option"
  create_onKeyCreated :: bool
  create_onDone :: bool
  create_resolved :: "string option option"

definition createKey_start :: create_op where
  "createKey_start =
     \<lparr>create_address = None, create_onKeyCreated = True, create_onDone = True,
      create_resolved = None\<rparr>"

fun createKey_emit :: "create_op \<Rightarrow> event \<Rightarrow> create_op" where
  "createKey_emit st (Ev_key_created buff) =
     (if create_onKeyCreated st
      then st\<lparr>create_address := Some (''0x'' @ toString_hex (slice 0 ETH_ADDRESS_SIZE buff)),
              create_onKeyCreated := False\<rparr>
      else st)"
| "createKey_emit st Ev_done =
     (if create_onDone st
      then st\<lparr>create_onDone := False, create_resolved := Some (create_address st)\<rparr>
      else st)"
| "createKey_emit st _ = st"

definition createKey_data :: "create_op \<Rightarrow> buffer \<Rightarrow> create_op" where
  "createKey_data st data =
     (case on_data data of None \<Rightarrow> st | Some ev \<Rightarrow> createKey_emit st ev)"

text \<open>The outcome of \<open>createKey\<close> when the device answers with the given packets.\<close>

definition createKey :: "buffer list \<Rightarrow> string option option" where
  "createKey packets = create_resolved (foldl createKey_data createKey_start packets)"

subsection \<open>Key.deleteKey\<close>

text \<open>The request packet \<open>deleteKey\<close> writes: 64 bytes, command code, slot index, zeros.\<close>

definition deleteKey_request :: "byte \<Rightarrow> buffer" where
  "deleteKey_request index = (replicate HID_PACKET_SIZE 0)[0 := CMD_DELETE, 1 := index]"

subsection \<open>Key.sign\<close>

text \<open>
  The \<open>once('done')\<close> handler of \<open>sign\<close> reads \<open>res[0]\<close> and \<open>res[1]\<close>. Reading
  \<open>.slice\<close> of a missing element raises a TypeError inside the handler; the promise
  is then never resolved. Elements after the second are not read.
\<close>

definition sign_done :: "buffer list \<Rightarrow> error + buffer" where
  "sign_done res =
     (case res of
        [] \<Rightarrow> Inl TypeError
      | r0 # res' \<Rightarrow>
          (case res' of
             [] \<Rightarrow> Inl TypeError
           | r1 # _ \<Rightarrow> Inr (slice 0 32 r0 @ slice 0 32 r1)))"

text \<open>
  The state of one call: the packets pushed by \<open>onSign\<close>, whether \<open>onSign\<close> and the
  \<open>once('done')\<close> listener are installed, and what the \<open>done\<close> handler did
  (\<open>None\<close> before it ran, \<open>Inr\<close> the signature it resolved the promise with,
  \<open>Inl\<close> the error it raised).
\<close>

record sign_op =
  sign_res :: "buffer list"
  sign_onSign :: bool
  sign_onDone :: bool
  sign_outcome :: "(error + buffer) option"

definition sign_start :: sign_op where
  "sign_start = \<lparr>sign_res = [], sign_onSign = True, sign_onDone = True, sign_outcome = None\<rparr>"

fun sign_emit :: "sign_op \<Rightarrow> event \<Rightarrow> sign_op" where
  "sign_emit st (Ev_sign buff) =
     (if sign_onSign st then st\<lparr>sign_res := sign_res st @ [buff]\<rparr> else st)"
| "sign_emit st Ev_done =
     (if sign_onDone st
      then st\<lparr>sign_onSign := False, sign_onDone := False,
              sign_outcome := Some (sign_done (sign_res st))\<rparr>
      else st)"
| "sign_emit st _ = st"

definition sign_data :: "sign_op \<Rightarrow> buffer \<Rightarrow> sign_op" where
  "sign_data st data = (case on_data data of None \<Rightarrow> st | Some ev \<Rightarrow> sign_emit st ev)"

definition sign :: "buffer list \<Rightarrow> (error + buffer) option" where
  "sign packets = sign_outcome (foldl sign_data sign_start packets)"

subsection \<open>Key.listAccounts\<close>

record account =
  index :: byte
  address :: string

text \<open>
  The \<open>while\<close> loop of the \<open>forEach\<close> callback, from position \<open>i\<close> of one buffer.
  \<open>return\<close> leaves the callback only, so the next buffer is still scanned.
\<close>

function scan :: "buffer \<Rightarrow> nat \<Rightarrow> account list" where
  "scan buff i =
     (if i < length buff then
        (let idx = buff ! i in
         if idx = 0xFF then []
         else \<lparr>index = idx,
               address = ''0x'' @ toString_hex (slice (i + 1) (i + 1 + ETH_ADDRESS_SIZE) buff)\<rparr>
              # scan buff (i + 1 + ETH_ADDRESS_SIZE))
      else [])"
  by pat_completeness auto
termination
  by (relation "measure (\<lambda>(buff, i). length buff - i)") auto

definition listAccounts_done :: "buffer list \<Rightarrow> account list" where
  "listAccounts_done res = concat (map (\<lambda>buff. scan buff 0) res)"

record dump_op =
  dump_res :: "buffer list"
  dump_onDumpKeys :: bool
  dump_onDone :: bool
  dump_resolved :: "account list option"

definition listAccounts_start :: dump_op where
  "listAccounts_start =
     \<lparr>dump_res = [], dump_onDumpKeys = True, dump_onDone = True, dump_resolved = None\<rparr>"

fun listAccounts_emit :: "dump_op \<Rightarrow> event \<Rightarrow> dump_op" where
  "listAccounts_emit st (Ev_dump_keys buff) =
     (if dump_onDumpKeys st then st\<lparr>dump_res := dump_res st @ [buff]\<rparr> else st)"
| "listAccounts_emit st Ev_done =
     (if dump_onDone st
      then st\<lparr>dump_onDumpKeys := False, dump_onDone := False,
              dump_resolved := Some (listAccounts_done (dump_res st))\<rparr>
      else st)"
| "listAccounts_emit st _ = st"

definition listAccounts_data :: "dump_op \<Rightarrow> buffer \<Rightarrow> dump_op" where
  "listAccounts_data st data =
     (case on_data data of None \<Rightarrow> st | Some ev \<Rightarrow> listAccounts_emit st ev)"

definition listAccounts :: "buffer list \<Rightarrow> account list option" where
  "listAccounts packets = dump_resolved (foldl listAccounts_data listAccounts_start packets)"

text \<open>
  The scan of one payload as the specification words it: read one index byte; the
  sentinel ends this payload; otherwise the next 20 bytes are the address.
\<close>

fun spec_entries :: "buffer \<Rightarrow> account list" where
  "spec_entries [] = []"
| "spec_entries (idx # rest) =
     (if idx = 0xFF then []
      else \<lparr>index = idx, address = ''0x'' @ toString_hex (take 20 rest)\<rparr>
           # spec_entries (drop 20 rest))"

section \<open>Account directory and signer (class Wallet)\<close>

text \<open>
  The wallet holds the cached directory (\<open>None\<close> until \<open>init\<close> has stored the result
  of \<open>listAccounts\<close>) and its device; of the device the model keeps the request
  packets that \<open>deleteKey\<close> has written.
\<close>

record wallet =
  accounts :: "account list option"
  written :: "buffer list"

text \<open>\<open>String.prototype.toLowerCase\<close>, on the ASCII letters that addresses are made of.\<close>

definition lower_char :: "char \<Rightarrow> char" where
  "lower_char c =
     (let n = of_char c :: nat in if 65 \<le> n \<and> n \<le> 90 then char_of (n + 32) else c)"

definition toLowerCase :: "string \<Rightarrow> string" where
  "toLowerCase str = map lower_char str"

text \<open>
  \<open>this.accounts.find((account) => account.address = address)\<close>: the callback
  assigns to the \<open>address\<close> field of the account it is called on, and its result is the
  assigned string, which counts as true exactly when it is not empty. \<open>find\<close>
  returns the first account whose callback result counts as true, \<open>None\<close>
  (\<open>undefined\<close>) when there is none; the accounts visited keep the assigned field.
\<close>

fun find_assign :: "string \<Rightarrow> account list \<Rightarrow> account option \<times> account list" where
  "find_assign a [] = (None, [])"
| "find_assign a (account # rest) =
     (let account' = account\<lparr>address := a\<rparr> in
      if a \<noteq> [] then (Some account', account' # rest)
      else (case find_assign a rest of (found, rest') \<Rightarrow> (found, account' # rest')))"

definition getAddressIndex :: "string \<Rightarrow> wallet \<Rightarrow> (error + byte) \<times> wallet" where
  "getAddressIndex addr w =
     (let a = toLowerCase addr in
      case accounts w of
        None \<Rightarrow> (Inl TypeError, w)
      | Some accs \<Rightarrow>
          (case find_assign a accs of
             (found, accs') \<Rightarrow>
               (case found of
                  None \<Rightarrow> (Inl (Error ''Account not found''), w\<lparr>accounts := Some accs'\<rparr>)
                | Some account \<Rightarrow> (Inr (index account), w\<lparr>accounts := Some accs'\<rparr>))))"

text \<open>
  \<open>deleteAddress\<close> takes no parameter and declares only \<open>index\<close>; no enclosing scope of
  the module declares \<open>address\<close> either, so the identifier is looked up on the global
  object, given here as the map \<open>globalThis\<close> of its string-valued properties. A
  missing property raises a ReferenceError before \<open>getAddressIndex\<close> is called.
\<close>

definition deleteAddress :: "(string \<rightharpoonup> string) \<Rightarrow> wallet \<Rightarrow> (error + unit) \<times> wallet" where
  "deleteAddress globalThis w =
     (case globalThis ''address'' of
        None \<Rightarrow> (Inl (ReferenceError ''address''), w)
      | Some addr \<Rightarrow>
          (case getAddressIndex addr w of
             (Inl e, w') \<Rightarrow> (Inl e, w')
           | (Inr i, w') \<Rightarrow> (Inr (), w'\<lparr>written := written w' @ [deleteKey_request i]\<rparr>)))"

text \<open>
  \<open>Wallet.sign\<close>. The collaborators outside the repository are parameters:
  \<open>getAddress\<close> is \<open>ethers.utils.getAddress\<close> (checksum normalization, which raises on
  a malformed address); \<open>recoverAddress h v r s\<close> is the checksum-normalized address
  of the key \<open>ecrecover\<close> recovers (which raises when there is none); \<open>txHash\<close> is the
  digest of the serialized transaction; \<open>packets\<close> are the packets the device answers
  the SIGN request with. The result is the triple \<open>(r, s, v)\<close> handed to
  \<open>serializeTransaction\<close>; \<open>None\<close> means that the promise of \<open>Key.sign\<close> was never resolved.
\<close>

definition Wallet_sign ::
  "(string \<Rightarrow> error + string) \<Rightarrow> (buffer \<Rightarrow> nat \<Rightarrow> buffer \<Rightarrow> buffer \<Rightarrow> error + string) \<Rightarrow>
   buffer \<Rightarrow> buffer list \<Rightarrow> string \<Rightarrow> wallet \<Rightarrow>
   (error + buffer \<times> buffer \<times> nat) option \<times> wallet" where
  "Wallet_sign getAddress recoverAddress txHash packets addr w =
     (case getAddressIndex addr w of
        (Inl e, w') \<Rightarrow> (Some (Inl e), w')
      | (Inr i, w') \<Rightarrow>
          (case sign packets of
             None \<Rightarrow> (None, w')
           | Some (Inl e) \<Rightarrow> (None, w')
           | Some (Inr signature) \<Rightarrow>
               (let r = setLengthLeft (slice 0 32 signature) 32;
                    s = normalize_s (slice 32 64 signature)
                in case recoverAddress txHash 27 r s of
                     Inl e \<Rightarrow> (Some (Inl e), w')
                   | Inr recoveredEthAddr \<Rightarrow>
                       (case getAddress addr of
                          Inl e \<Rightarrow> (Some (Inl e), w')
                        | Inr target \<Rightarrow>
                            if target \<noteq> recoveredEthAddr
                            then (case recoverAddress txHash 28 r s of
                                    Inl e \<Rightarrow> (Some (Inl e), w')
                                  | Inr recoveredEthAddr' \<Rightarrow> (Some (Inr (r, s, 28)), w'))
                            else (Some (Inr (r, s, 27)), w')))))"

subsection \<open>A signing run on concrete data\<close>

text \<open>
  The device holds the key with private scalar 1 in slot 1 and the key with private
  scalar 2 in slot 2, so the directory lists the addresses \<open>0x7e5f...5bdf\<close> and
  \<open>0x2b5a...d6cf\<close>. The caller signs for the second address (\<open>run_target\<close>) the
  transaction with nonce 0, gas price 1000000000, gas limit 1000000, recipient
  \<open>0x0213DEc9C5eEC5AFc71Df8Fad4C39b3876F57C14\<close>, value 0, no data and chain id 3,
  whose serialization has the Keccak-256 digest \<open>run_txHash\<close>. The device answers with
  two 64-byte SIGN packets carrying \<open>run_r\<close> and \<open>run_s\<close>, a signature of that digest
  under the key of slot 1, and a DONE packet. \<open>run_getAddress\<close> and
  \<open>run_recoverAddress\<close> are \<open>ethers.utils.getAddress\<close> and the address recovered by
  \<open>ecrecover\<close> at the arguments that occur in this run, and an error elsewhere.
\<close>

definition run_txHash :: buffer where
  "run_txHash =
     [0x6A, 0x09, 0x63, 0xB3, 0xA6, 0xC8, 0xD5, 0x24, 0x67, 0xAD, 0x10, 0xF5, 0xD1, 0xC4, 0x63, 0xFF,
      0x96, 0x66, 0x18, 0x53, 0x93, 0x03, 0xEA, 0xD8, 0x74, 0x14, 0x2E, 0x84, 0xE1, 0x43, 0x33, 0xF5]"

definition run_r :: buffer where
  "run_r =
     [0x06, 0x30, 0x1A, 0x34, 0x4F, 0x9B, 0x68, 0x09, 0xEC, 0xB0, 0x2F, 0x54, 0x59, 0xAE, 0x02, 0xBB,
      0x6F, 0x9B, 0x20, 0xA6, 0xAB, 0x9F, 0x21, 0xA9, 0xD7, 0x94, 0x8E, 0xEA, 0x75, 0x88, 0xC3, 0x25]"

definition run_s :: buffer where
  "run_s =
     [0x03, 0x3D, 0x9A, 0xFA, 0x15, 0x2D, 0x9F, 0x94, 0x1C, 0xE8, 0x25, 0xBF, 0x12, 0x26, 0xA2, 0x64,
      0x40, 0xB4, 0x4A, 0x7F, 0xA5, 0x00, 0x81, 0x40, 0xDD, 0xB5, 0x39, 0xED, 0x03, 0x0F, 0x62, 0x1C]"

definition run_packets :: "buffer list" where
  "run_packets =
     [RES_SIGN # run_r @ replicate 31 0, RES_SIGN # run_s @ replicate 31 0,
      RES_DONE # replicate 63 0]"

definition run_target :: string where
  "run_target = ''0x2b5ad5c4795c026514f8317c7a215e218dccd6cf''"

definition run_wallet :: wallet where
  "run_wallet =
     \<lparr>accounts = Some [\<lparr>index = 1, address = ''0x7e5f4552091a69125d5dfcb7b8c2659029395bdf''\<rparr>,
                       \<lparr>index = 2, address = ''0x2b5ad5c4795c026514f8317c7a215e218dccd6cf''\<rparr>],
      written = []\<rparr>"

definition run_getAddress :: "string \<Rightarrow> error + string" where
  "run_getAddress a =
     (if a = run_target then Inr ''0x2B5AD5c4795c026514f8317c7a215E218DcCD6cF''
      else Inl LibraryError)"

definition run_recoverAddress :: "buffer \<Rightarrow> nat \<Rightarrow> buffer \<Rightarrow> buffer \<Rightarrow> error + string" where
  "run_recoverAddress h v r s =
     (if h = run_txHash \<and> r = run_r \<and> s = run_s \<and> v = 27
      then Inr ''0xf8B2A768306e06217C53a86645704E0adE91885C''
      else if h = run_txHash \<and> r = run_r \<and> s = run_s \<and> v = 28
      then Inr ''0x7E5F4552091A69125d5DfCb7b8C2659029395Bdf''
      else Inl LibraryError)"

section \<open>Properties of the low-s normalization\<close>

declare be_bytes.simps [simp del]

lemma bn_foldl_acc:
  "foldl (\<lambda>acc x. acc * 256 + uint (x::byte)) a b = a * 256 ^ length b + foldl (\<lambda>acc x. acc * 256 + uint x) 0 b"
proof (induction b arbitrary: a)
  case Nil
  show ?case by simp
next
  case (Cons x xs)
  show ?case
    using Cons.IH [of "a * 256 + uint x"] Cons.IH [of "uint x"]
    by (simp add: algebra_simps)
qed

lemma bn_of_buffer_Nil: "bn_of_buffer [] = 0"
  by (simp add: bn_of_buffer_def)

lemma bn_of_buffer_append:
  "bn_of_buffer (xs @ ys) = bn_of_buffer xs * 256 ^ length ys + bn_of_buffer ys"
  unfolding bn_of_buffer_def foldl_append
  by (rule bn_foldl_acc)

lemma bn_of_buffer_single: "bn_of_buffer [x] = uint x"
  by (simp add: bn_of_buffer_def)

lemma bn_of_buffer_nonneg: "0 \<le> bn_of_buffer b"
proof (induction b rule: rev_induct)
  case Nil
  show ?case by (simp add: bn_of_buffer_Nil)
next
  case (snoc x xs)
  then show ?case by (simp add: bn_of_buffer_append bn_of_buffer_single)
qed

lemma bn_of_buffer_bound: "bn_of_buffer b < 256 ^ length b"
proof (induction b rule: rev_induct)
  case Nil
  show ?case by (simp add: bn_of_buffer_Nil)
next
  case (snoc x xs)
  have "uint x < 256" using uint_bounded [of x] by simp
  moreover have "bn_of_buffer xs + 1 \<le> 256 ^ length xs" using snoc by simp
  then have "(bn_of_buffer xs + 1) * 256 \<le> 256 ^ length xs * 256"
    by (rule mult_right_mono) simp
  ultimately show ?case
    by (simp add: bn_of_buffer_append bn_of_buffer_single algebra_simps)
qed

lemma bn_of_buffer_zeros: "bn_of_buffer (replicate k 0 @ b) = bn_of_buffer b"
proof -
  have "bn_of_buffer (replicate k (0::byte)) = 0"
    by (induction k) (simp_all add: bn_of_buffer_def)
  then show ?thesis by (simp add: bn_of_buffer_append)
qed

lemma bn_of_buffer_drop:
  assumes "bn_of_buffer b < 256 ^ n"
  shows "bn_of_buffer (drop (length b - n) b) = bn_of_buffer b"
proof (cases "length b \<le> n")
  case True
  then show ?thesis by simp
next
  case False
  define k where "k = length b - n"
  have len: "length (drop k b) = n" using False by (simp add: k_def)
  have split: "bn_of_buffer b = bn_of_buffer (take k b) * 256 ^ n + bn_of_buffer (drop k b)"
    using bn_of_buffer_append [of "take k b" "drop k b"] len by simp
  have "bn_of_buffer (take k b) = 0"
  proof (rule ccontr)
    assume "bn_of_buffer (take k b) \<noteq> 0"
    then have "1 \<le> bn_of_buffer (take k b)"
      using bn_of_buffer_nonneg [of "take k b"] by linarith
    then have "1 * (256::int) ^ n \<le> bn_of_buffer (take k b) * 256 ^ n"
      by (rule mult_right_mono) simp
    then show False
      using split assms bn_of_buffer_nonneg [of "drop k b"] by linarith
  qed
  then show ?thesis using split by (simp add: k_def)
qed

lemma bn_of_buffer_setLengthLeft:
  "bn_of_buffer b < 256 ^ n \<Longrightarrow> bn_of_buffer (setLengthLeft b n) = bn_of_buffer b"
  by (simp add: setLengthLeft_def bn_of_buffer_zeros bn_of_buffer_drop)

lemma length_setLengthLeft: "length (setLengthLeft b n) = n"
  by (simp add: setLengthLeft_def)

lemma setLengthLeft_same: "length b = n \<Longrightarrow> setLengthLeft b n = b"
  by (simp add: setLengthLeft_def)

lemma bn_of_be_bytes: "bn_of_buffer (be_bytes n) = int n"
proof (induction n rule: be_bytes.induct)
  case (1 n)
  show ?case
  proof (cases "n < 256")
    case True
    then show ?thesis
      by (simp add: be_bytes.simps [of n] bn_of_buffer_single uint_nat unat_of_nat)
  next
    case False
    have "uint (of_nat (n mod 256) :: byte) = int (n mod 256)"
      by (simp add: uint_nat unat_of_nat)
    then show ?thesis
      using False "1.IH"
      by (simp add: be_bytes.simps [of n] bn_of_buffer_append bn_of_buffer_single zdiv_int zmod_int)
  qed
qed

lemma bn_of_bn_toBuffer: "0 \<le> n \<Longrightarrow> bn_of_buffer (bn_toBuffer n) = n"
  by (simp add: bn_toBuffer_def bn_of_be_bytes)

lemma secp256k1N_odd: "secp256k1N = 2 * secp256k1halfN + 1"
  by (simp add: secp256k1halfN_def secp256k1N_def)

lemma secp256k1N_bound: "secp256k1N < 256 ^ 32"
  by (simp add: secp256k1N_def)

lemma bn_normalize_s:
  assumes "bn_of_buffer s < secp256k1N"
  shows "bn_of_buffer (normalize_s s) =
    (if bn_of_buffer s > secp256k1halfN then secp256k1N - bn_of_buffer s else bn_of_buffer s)"
proof (cases "bn_of_buffer s > secp256k1halfN")
  case True
  have pos: "0 \<le> secp256k1N - bn_of_buffer s" using assms by simp
  have "secp256k1N - bn_of_buffer s < 256 ^ 32"
    using secp256k1N_bound bn_of_buffer_nonneg [of s] by linarith
  then have "bn_of_buffer (setLengthLeft (bn_toBuffer (secp256k1N - bn_of_buffer s)) 32)
      = secp256k1N - bn_of_buffer s"
    by (simp add: bn_of_buffer_setLengthLeft bn_of_bn_toBuffer [OF pos])
  with True show ?thesis by (simp add: normalize_s_def)
next
  case False
  have "bn_of_buffer s < 256 ^ 32" using assms secp256k1N_bound by linarith
  then have "bn_of_buffer (setLengthLeft s 32) = bn_of_buffer s"
    by (rule bn_of_buffer_setLengthLeft)
  with False show ?thesis by (simp add: normalize_s_def)
qed

lemma length_normalize_s: "length (normalize_s s) = 32"
  by (simp add: normalize_s_def Let_def length_setLengthLeft)

lemma bn_of_buffer_Cons_zeros: "bn_of_buffer (x # replicate k 0) = uint x * 256 ^ k"
  using bn_of_buffer_append [of "[x]" "replicate k 0"] bn_of_buffer_zeros [of k "[]"]
  by (simp add: bn_of_buffer_single bn_of_buffer_Nil)

text \<open>
  Every number in \<open>[0, N)\<close> is the value of a 32-byte buffer, so the statements below,
  which range over buffers, cover every \<open>s\<close> in that interval.
\<close>

lemma value_has_buffer:
  assumes "0 \<le> n" and "n < secp256k1N"
  shows "bn_of_buffer (setLengthLeft (bn_toBuffer n) 32) = n
    \<and> length (setLengthLeft (bn_toBuffer n) 32) = 32"
proof -
  have "bn_of_buffer (bn_toBuffer n) < 256 ^ 32"
    using assms secp256k1N_bound by (simp add: bn_of_bn_toBuffer)
  then show ?thesis
    using assms(1) by (simp add: bn_of_buffer_setLengthLeft bn_of_bn_toBuffer length_setLengthLeft)
qed

text \<open>
  Claim C4. For every buffer \<open>s\<close> whose value is in \<open>[0, N)\<close>, the value after the
  normalization is \<open>N - s\<close> exactly when \<open>s\<close> is greater than \<open>secp256k1halfN\<close>
  (\<open>N div 2\<close>) and \<open>s\<close> otherwise; the normalized value is at most \<open>N div 2\<close>, so twice
  it is at most \<open>N\<close>; and the normalized buffer has 32 bytes.
\<close>

theorem low_s_normalization:
  assumes "bn_of_buffer s < secp256k1N"
  shows "bn_of_buffer (normalize_s s) =
           (if bn_of_buffer s > secp256k1halfN then secp256k1N - bn_of_buffer s
            else bn_of_buffer s)
         \<and> bn_of_buffer (normalize_s s) \<le> secp256k1halfN
         \<and> 2 * bn_of_buffer (normalize_s s) \<le> secp256k1N
         \<and> length (normalize_s s) = 32"
  using assms bn_normalize_s [OF assms] secp256k1N_odd length_normalize_s [of s]
  by (simp split: if_splits)

theorem low_s_normalization_witness:
  "bn_of_buffer (0x80 # replicate 31 0) < secp256k1N
   \<and> bn_of_buffer (normalize_s (0x80 # replicate 31 0)) = secp256k1N - 2 ^ 255
   \<and> bn_of_buffer (normalize_s (0x80 # replicate 31 0)) \<le> secp256k1halfN"
proof -
  have v: "bn_of_buffer (0x80 # replicate 31 0) = 2 ^ 255"
    by (simp add: bn_of_buffer_Cons_zeros)
  have h: "bn_of_buffer (0x80 # replicate 31 0) < secp256k1N"
    by (simp add: v secp256k1N_def)
  have "secp256k1halfN < 2 ^ 255"
    by (simp add: secp256k1halfN_def secp256k1N_def)
  then show ?thesis
    using h low_s_normalization [OF h] by (simp add: v)
qed

text \<open>
  Claim C5. The normalization is idempotent: for every buffer \<open>s\<close> whose value is in
  \<open>[0, N)\<close>, normalizing the normalized buffer again gives the same buffer, and hence
  the same value.
\<close>

theorem low_s_idempotent:
  assumes "bn_of_buffer s < secp256k1N"
  shows "normalize_s (normalize_s s) = normalize_s s"
proof -
  have "bn_of_buffer (normalize_s s) \<le> secp256k1halfN"
    using assms bn_normalize_s [OF assms] secp256k1N_odd by (simp split: if_splits)
  then show ?thesis
    using length_normalize_s [of s]
    by (simp add: normalize_s_def [of "normalize_s s"] setLengthLeft_same)
qed

theorem low_s_idempotent_witness:
  "bn_of_buffer (0xC0 # replicate 31 0) < secp256k1N
   \<and> normalize_s (normalize_s (0xC0 # replicate 31 0)) = normalize_s (0xC0 # replicate 31 0)"
proof -
  have h: "bn_of_buffer (0xC0 # replicate 31 0) < secp256k1N"
    by (simp add: bn_of_buffer_Cons_zeros secp256k1N_def)
  show ?thesis
    using h low_s_idempotent [OF h] by simp
qed

section \<open>Properties of the command channel\<close>

lemma on_data_done_iff: "on_data p = Some Ev_done \<longleftrightarrow> has_tag RES_DONE p"
  by (auto simp: on_data_def has_tag_def RES_DONE_def RES_SIGN_def RES_DUMP_KEYS_def
      RES_KEY_CREATED_def split: list.splits)

lemma on_data_sign_iff: "on_data p = Some (Ev_sign b) \<longleftrightarrow> has_tag RES_SIGN p \<and> b = tl p"
  by (auto simp: on_data_def has_tag_def RES_DONE_def RES_SIGN_def RES_DUMP_KEYS_def
      RES_KEY_CREATED_def split: list.splits)

lemma on_data_dump_keys_iff:
  "on_data p = Some (Ev_dump_keys b) \<longleftrightarrow> has_tag RES_DUMP_KEYS p \<and> b = tl p"
  by (auto simp: on_data_def has_tag_def RES_DONE_def RES_SIGN_def RES_DUMP_KEYS_def
      RES_KEY_CREATED_def split: list.splits)

lemma on_data_key_created_iff:
  "on_data p = Some (Ev_key_created b) \<longleftrightarrow> has_tag RES_KEY_CREATED p \<and> b = tl p"
  by (auto simp: on_data_def has_tag_def RES_DONE_def RES_SIGN_def RES_DUMP_KEYS_def
      RES_KEY_CREATED_def split: list.splits)

subsection \<open>sign\<close>

lemma sign_data_step:
  assumes "\<not> has_tag RES_DONE p" and "sign_onSign st"
  shows "sign_data st p =
    st\<lparr>sign_res := sign_res st @ (if has_tag RES_SIGN p then [tl p] else [])\<rparr>"
proof (cases "on_data p")
  case None
  then have "\<not> has_tag RES_SIGN p"
    using on_data_sign_iff [of p "tl p"] by simp
  with None show ?thesis by (simp add: sign_data_def)
next
  case (Some ev)
  show ?thesis
  proof (cases ev)
    case (Ev_sign b)
    with Some have "has_tag RES_SIGN p" and "b = tl p"
      using on_data_sign_iff [of p b] by simp_all
    with Some Ev_sign assms show ?thesis by (simp add: sign_data_def)
  next
    case Ev_done
    with Some have "has_tag RES_DONE p"
      using on_data_done_iff [of p] by simp
    with assms show ?thesis by simp
  next
    case (Ev_key_created b)
    with Some have "\<not> has_tag RES_SIGN p"
      using on_data_sign_iff [of p "tl p"] by simp
    with Some Ev_key_created show ?thesis by (simp add: sign_data_def)
  next
    case (Ev_dump_keys b)
    with Some have "\<not> has_tag RES_SIGN p"
      using on_data_sign_iff [of p "tl p"] by simp
    with Some Ev_dump_keys show ?thesis by (simp add: sign_data_def)
  qed
qed

lemma sign_fold_pre:
  assumes "\<forall>p\<in>set pre. \<not> has_tag RES_DONE p" and "sign_onSign st"
  shows "foldl sign_data st pre =
    st\<lparr>sign_res := sign_res st @ map tl (filter (has_tag RES_SIGN) pre)\<rparr>"
  using assms
proof (induction pre arbitrary: st)
  case Nil
  show ?case by simp
next
  case (Cons p pre)
  have step: "sign_data st p =
      st\<lparr>sign_res := sign_res st @ (if has_tag RES_SIGN p then [tl p] else [])\<rparr>"
    using Cons.prems by (simp add: sign_data_step)
  have "foldl sign_data (sign_data st p) pre =
      (sign_data st p)\<lparr>sign_res := sign_res (sign_data st p) @ map tl (filter (has_tag RES_SIGN) pre)\<rparr>"
    using Cons.prems by (intro Cons.IH) (simp_all add: step)
  then show ?case by (simp add: step)
qed

lemma sign_data_closed:
  assumes "\<not> sign_onSign st" and "\<not> sign_onDone st"
  shows "sign_data st p = st"
proof (cases "on_data p")
  case None
  then show ?thesis by (simp add: sign_data_def)
next
  case (Some ev)
  with assms show ?thesis by (cases ev) (simp_all add: sign_data_def)
qed

lemma sign_fold_closed:
  "\<not> sign_onSign st \<Longrightarrow> \<not> sign_onDone st \<Longrightarrow> foldl sign_data st later = st"
  by (induction later) (simp_all add: sign_data_closed)

lemma sign_run:
  assumes "\<forall>p\<in>set pre. \<not> has_tag RES_DONE p" and "has_tag RES_DONE d"
  shows "sign (pre @ d # later) = Some (sign_done (map tl (filter (has_tag RES_SIGN) pre)))"
proof -
  define st where "st = sign_start\<lparr>sign_res := map tl (filter (has_tag RES_SIGN) pre)\<rparr>"
  define st' where "st' = st\<lparr>sign_onSign := False, sign_onDone := False,
      sign_outcome := Some (sign_done (sign_res st))\<rparr>"
  have pre: "foldl sign_data sign_start pre = st"
    using sign_fold_pre [OF assms(1), of sign_start] by (simp add: sign_start_def st_def)
  have "on_data d = Some Ev_done" using assms(2) by (simp add: on_data_done_iff)
  then have d: "sign_data st d = st'"
    by (simp add: sign_data_def st_def st'_def sign_start_def)
  have "foldl sign_data st' later = st'"
    by (rule sign_fold_closed) (simp_all add: st'_def)
  then have "foldl sign_data sign_start (pre @ d # later) = st'"
    by (simp add: pre d)
  then show ?thesis
    by (simp add: sign_def st'_def st_def)
qed

text \<open>
  Claim C7. When the packets received before the first DONE packet contain exactly two
  SIGN packets, \<open>P1\<close> then \<open>P2\<close>, \<open>Key.sign\<close> resolves with the first 32 bytes of the
  payload of \<open>P1\<close> followed by the first 32 bytes of the payload of \<open>P2\<close>, whatever
  arrives after DONE; for packets of the fixed size of 64 bytes this signature has
  64 bytes.
\<close>

theorem sign_two_packets:
  assumes "\<forall>p\<in>set pre. \<not> has_tag RES_DONE p"
    and "has_tag RES_DONE d"
    and "filter (has_tag RES_SIGN) pre = [P1, P2]"
  shows "sign (pre @ d # later) = Some (Inr (take 32 (tl P1) @ take 32 (tl P2)))
    \<and> (length P1 = HID_PACKET_SIZE \<and> length P2 = HID_PACKET_SIZE \<longrightarrow>
         length (take 32 (tl P1) @ take 32 (tl P2)) = 64)"
  using sign_run [OF assms(1,2), of later] assms(3)
  by (simp add: sign_done_def slice_def HID_PACKET_SIZE_def)

theorem sign_two_packets_witness:
  "sign ([RES_SIGN # replicate 63 1, RES_SIGN # replicate 63 2] @ [RES_DONE] # [])
     = Some (Inr (replicate 32 1 @ replicate 32 2))"
  using sign_two_packets [of "[RES_SIGN # replicate 63 1, RES_SIGN # replicate 63 2]"
      "[RES_DONE]" "RES_SIGN # replicate 63 1" "RES_SIGN # replicate 63 2" "[]"]
  by (simp add: has_tag_def RES_SIGN_def RES_DONE_def)

text \<open>
  Claim C3 asks for a failure at every count of SIGN packets other than two. With
  three SIGN packets before DONE the call resolves, with the first 32 bytes of the
  first two payloads; the third packet is dropped without an error.
\<close>

theorem sign_three_packets_resolves:
  "length (filter (has_tag RES_SIGN)
      [RES_SIGN # replicate 63 1, RES_SIGN # replicate 63 2, RES_SIGN # replicate 63 3]) = 3
   \<and> sign ([RES_SIGN # replicate 63 1, RES_SIGN # replicate 63 2, RES_SIGN # replicate 63 3]
            @ [[RES_DONE]])
       = Some (Inr (replicate 32 1 @ replicate 32 2))"
  by (simp add: sign_def sign_data_def on_data_def sign_start_def sign_done_def slice_def
      has_tag_def RES_SIGN_def RES_DONE_def RES_KEY_CREATED_def RES_DUMP_KEYS_def)

text \<open>
  Claim C3, amended. With fewer than two SIGN packets before DONE (none or one), the
  \<open>done\<close> handler of \<open>Key.sign\<close> raises a TypeError on the missing packet and the
  promise is never resolved, so no signature is produced. With two or more, the call
  resolves with the first 32 bytes of the payloads of the first two SIGN packets, and
  any further SIGN packet is ignored.
\<close>

theorem sign_response_count:
  assumes "\<forall>p\<in>set pre. \<not> has_tag RES_DONE p"
    and "has_tag RES_DONE d"
  shows "(length (filter (has_tag RES_SIGN) pre) < 2 \<longrightarrow>
            sign (pre @ d # later) = Some (Inl TypeError))
    \<and> (2 \<le> length (filter (has_tag RES_SIGN) pre) \<longrightarrow>
        sign (pre @ d # later) =
          Some (Inr (take 32 (tl (filter (has_tag RES_SIGN) pre ! 0))
                   @ take 32 (tl (filter (has_tag RES_SIGN) pre ! 1)))))"
proof (cases "filter (has_tag RES_SIGN) pre")
  case Nil
  then show ?thesis using sign_run [OF assms, of later] by (simp add: sign_done_def)
next
  case (Cons a as)
  then show ?thesis using sign_run [OF assms, of later]
    by (cases as) (simp_all add: sign_done_def slice_def)
qed

theorem sign_response_count_witness:
  "sign ([[RES_SIGN, 7, 7]] @ [RES_DONE] # []) = Some (Inl TypeError)
   \<and> sign ([] @ [RES_DONE] # []) = Some (Inl TypeError)
   \<and> sign ([[RES_SIGN, 1], [RES_SIGN, 2], [RES_SIGN, 3]] @ [RES_DONE] # []) = Some (Inr [1, 2])"
  using sign_response_count [of "[[RES_SIGN, 7, 7]]" "[RES_DONE]" "[]"]
    sign_response_count [of "[]" "[RES_DONE]" "[]"]
    sign_response_count [of "[[RES_SIGN, 1], [RES_SIGN, 2], [RES_SIGN, 3]]" "[RES_DONE]" "[]"]
  by (simp add: has_tag_def RES_SIGN_def RES_DONE_def)

subsection \<open>createKey\<close>

lemma createKey_data_step:
  assumes "\<not> has_tag RES_DONE p"
  shows "createKey_data st p =
    (if has_tag RES_KEY_CREATED p \<and> create_onKeyCreated st
     then st\<lparr>create_address := Some (''0x'' @ toString_hex (take 20 (tl p))),
             create_onKeyCreated := False\<rparr>
     else st)"
proof (cases "on_data p")
  case None
  then have "\<not> has_tag RES_KEY_CREATED p"
    using on_data_key_created_iff [of p "tl p"] by simp
  with None show ?thesis by (simp add: createKey_data_def)
next
  case (Some ev)
  show ?thesis
  proof (cases ev)
    case (Ev_key_created b)
    with Some have "has_tag RES_KEY_CREATED p" and "b = tl p"
      using on_data_key_created_iff [of p b] by simp_all
    with Some Ev_key_created show ?thesis
      by (simp add: createKey_data_def slice_def ETH_ADDRESS_SIZE_def)
  next
    case Ev_done
    with Some have "has_tag RES_DONE p"
      using on_data_done_iff [of p] by simp
    with assms show ?thesis by simp
  next
    case (Ev_sign b)
    with Some have "\<not> has_tag RES_KEY_CREATED p"
      using on_data_key_created_iff [of p "tl p"] by simp
    with Some Ev_sign show ?thesis by (simp add: createKey_data_def)
  next
    case (Ev_dump_keys b)
    with Some have "\<not> has_tag RES_KEY_CREATED p"
      using on_data_key_created_iff [of p "tl p"] by simp
    with Some Ev_dump_keys show ?thesis by (simp add: createKey_data_def)
  qed
qed

lemma createKey_fold_pre:
  assumes "\<forall>p\<in>set pre. \<not> has_tag RES_DONE p"
  shows "create_onDone (foldl createKey_data st pre) = create_onDone st
    \<and> create_resolved (foldl createKey_data st pre) = create_resolved st
    \<and> create_address (foldl createKey_data st pre) =
        (if create_onKeyCreated st
         then (case filter (has_tag RES_KEY_CREATED) pre of
                 [] \<Rightarrow> create_address st
               | p # _ \<Rightarrow> Some (''0x'' @ toString_hex (take 20 (tl p))))
         else create_address st)"
  using assms
proof (induction pre arbitrary: st)
  case Nil
  show ?case by simp
next
  case (Cons p pre)
  have step: "createKey_data st p =
    (if has_tag RES_KEY_CREATED p \<and> create_onKeyCreated st
     then st\<lparr>create_address := Some (''0x'' @ toString_hex (take 20 (tl p))),
             create_onKeyCreated := False\<rparr>
     else st)"
    using Cons.prems by (simp add: createKey_data_step)
  have ih: "create_onDone (foldl createKey_data (createKey_data st p) pre)
        = create_onDone (createKey_data st p)
    \<and> create_resolved (foldl createKey_data (createKey_data st p) pre)
        = create_resolved (createKey_data st p)
    \<and> create_address (foldl createKey_data (createKey_data st p) pre) =
        (if create_onKeyCreated (createKey_data st p)
         then (case filter (has_tag RES_KEY_CREATED) pre of
                 [] \<Rightarrow> create_address (createKey_data st p)
               | p # _ \<Rightarrow> Some (''0x'' @ toString_hex (take 20 (tl p))))
         else create_address (createKey_data st p))"
    using Cons.prems by (intro Cons.IH) simp
  show ?case
    using ih by (simp add: step split: list.splits)
qed

lemma createKey_data_closed:
  assumes "\<not> create_onDone st"
  shows "create_resolved (createKey_data st p) = create_resolved st
    \<and> \<not> create_onDone (createKey_data st p)"
proof (cases "on_data p")
  case None
  with assms show ?thesis by (simp add: createKey_data_def)
next
  case (Some ev)
  with assms show ?thesis by (cases ev) (simp_all add: createKey_data_def)
qed

lemma createKey_fold_closed:
  "\<not> create_onDone st \<Longrightarrow>
   create_resolved (foldl createKey_data st later) = create_resolved st"
proof (induction later arbitrary: st)
  case Nil
  show ?case by simp
next
  case (Cons p later)
  then show ?case using createKey_data_closed [of st p] by simp
qed

lemma createKey_run:
  assumes "\<forall>p\<in>set pre. \<not> has_tag RES_DONE p" and "has_tag RES_DONE d"
  shows "createKey (pre @ d # later) =
    Some (case filter (has_tag RES_KEY_CREATED) pre of
            [] \<Rightarrow> None
          | p # _ \<Rightarrow> Some (''0x'' @ toString_hex (take 20 (tl p))))"
proof -
  define st where "st = foldl createKey_data createKey_start pre"
  have pre: "create_onDone st" "create_resolved st = None"
    "create_address st = (case filter (has_tag RES_KEY_CREATED) pre of
            [] \<Rightarrow> None
          | p # _ \<Rightarrow> Some (''0x'' @ toString_hex (take 20 (tl p))))"
  proof -
    have init: "create_onDone createKey_start" "create_resolved createKey_start = None"
      "create_address createKey_start = None" "create_onKeyCreated createKey_start"
      by (simp_all add: createKey_start_def)
    show "create_onDone st" "create_resolved st = None"
      "create_address st = (case filter (has_tag RES_KEY_CREATED) pre of
            [] \<Rightarrow> None
          | p # _ \<Rightarrow> Some (''0x'' @ toString_hex (take 20 (tl p))))"
      unfolding st_def
      using createKey_fold_pre [OF assms(1), of createKey_start] init
      by (simp_all split: list.splits)
  qed
  have "on_data d = Some Ev_done" using assms(2) by (simp add: on_data_done_iff)
  then have d: "createKey_data st d =
      st\<lparr>create_onDone := False, create_resolved := Some (create_address st)\<rparr>"
    using pre(1) by (simp add: createKey_data_def)
  have "create_resolved (foldl createKey_data (createKey_data st d) later)
      = create_resolved (createKey_data st d)"
    by (rule createKey_fold_closed) (simp add: d)
  then show ?thesis
    by (simp add: createKey_def st_def [symmetric] d pre(3))
qed

lemma length_toString_hex: "length (toString_hex b) = 2 * length b"
  by (induction b) (simp_all add: toString_hex_def)

text \<open>
  Claim C8. For the packets received up to the first DONE packet: when none of them
  is a KEY_CREATED packet, \<open>createKey\<close> resolves with \<open>null\<close> (\<open>Some None\<close>; the model
  has no error outcome for this call); otherwise it resolves with the address read
  from the first 20 payload bytes of the first KEY_CREATED packet, written as \<open>0x\<close> and
  hexadecimal digits, 40 of them for a packet of the fixed size of 64 bytes.
\<close>

theorem createKey_resolves:
  assumes "\<forall>p\<in>set pre. \<not> has_tag RES_DONE p"
    and "has_tag RES_DONE d"
  shows "(filter (has_tag RES_KEY_CREATED) pre = [] \<longrightarrow> createKey (pre @ d # later) = Some None)
    \<and> (\<forall>p ps. filter (has_tag RES_KEY_CREATED) pre = p # ps \<longrightarrow>
          createKey (pre @ d # later) = Some (Some (''0x'' @ toString_hex (take 20 (tl p))))
          \<and> (length p = HID_PACKET_SIZE \<longrightarrow> length (toString_hex (take 20 (tl p))) = 40))"
  using createKey_run [OF assms, of later]
  by (auto simp: length_toString_hex HID_PACKET_SIZE_def)

theorem createKey_resolves_witness:
  "createKey ([[RES_KEY_CREATED, 0xAB, 0x01], [RES_KEY_CREATED, 0xCD]] @ [RES_DONE] # [])
     = Some (Some ''0xab01'')
   \<and> createKey ([[RES_SIGN, 0xAB]] @ [RES_DONE] # []) = Some None"
  using createKey_resolves [of "[[RES_KEY_CREATED, 0xAB, 0x01], [RES_KEY_CREATED, 0xCD]]" "[RES_DONE]" "[]"]
   createKey_resolves [of "[[RES_SIGN, 0xAB]]" "[RES_DONE]" "[]"]
  by (simp add: has_tag_def RES_SIGN_def RES_DONE_def RES_KEY_CREATED_def toString_hex_def hex_digit_def)

subsection \<open>listAccounts\<close>

declare scan.simps [simp del]

lemma scan_spec_entries: "scan buff i = spec_entries (drop i buff)"
proof (induction buff i rule: scan.induct)
  case (1 buff i)
  show ?case
  proof (cases "i < length buff")
    case False
    then show ?thesis by (simp add: scan.simps [of buff i])
  next
    case True
    then have d: "drop i buff = buff ! i # drop (Suc i) buff"
      by (simp add: Cons_nth_drop_Suc)
    show ?thesis
    proof (cases "buff ! i = 0xFF")
      case True
      with \<open>i < length buff\<close> d show ?thesis by (simp add: scan.simps [of buff i])
    next
      case False
      have "scan buff (i + 1 + ETH_ADDRESS_SIZE) = spec_entries (drop (i + 1 + ETH_ADDRESS_SIZE) buff)"
        using "1.IH" [OF True refl False] .
      moreover have "drop (i + 1 + ETH_ADDRESS_SIZE) buff = drop 20 (drop (Suc i) buff)"
        by (simp add: ETH_ADDRESS_SIZE_def add.commute)
      ultimately show ?thesis
        using True False d
        by (simp add: scan.simps [of buff i] slice_def ETH_ADDRESS_SIZE_def)
    qed
  qed
qed

lemma listAccounts_done_spec:
  "listAccounts_done res = concat (map spec_entries res)"
  by (simp add: listAccounts_done_def scan_spec_entries)

lemma listAccounts_data_step:
  assumes "\<not> has_tag RES_DONE p" and "dump_onDumpKeys st"
  shows "listAccounts_data st p =
    st\<lparr>dump_res := dump_res st @ (if has_tag RES_DUMP_KEYS p then [tl p] else [])\<rparr>"
proof (cases "on_data p")
  case None
  then have "\<not> has_tag RES_DUMP_KEYS p"
    using on_data_dump_keys_iff [of p "tl p"] by simp
  with None show ?thesis by (simp add: listAccounts_data_def)
next
  case (Some ev)
  show ?thesis
  proof (cases ev)
    case (Ev_dump_keys b)
    with Some have "has_tag RES_DUMP_KEYS p" and "b = tl p"
      using on_data_dump_keys_iff [of p b] by simp_all
    with Some Ev_dump_keys assms show ?thesis by (simp add: listAccounts_data_def)
  next
    case Ev_done
    with Some have "has_tag RES_DONE p"
      using on_data_done_iff [of p] by simp
    with assms show ?thesis by simp
  next
    case (Ev_key_created b)
    with Some have "\<not> has_tag RES_DUMP_KEYS p"
      using on_data_dump_keys_iff [of p "tl p"] by simp
    with Some Ev_key_created show ?thesis by (simp add: listAccounts_data_def)
  next
    case (Ev_sign b)
    with Some have "\<not> has_tag RES_DUMP_KEYS p"
      using on_data_dump_keys_iff [of p "tl p"] by simp
    with Some Ev_sign show ?thesis by (simp add: listAccounts_data_def)
  qed
qed

lemma listAccounts_fold_pre:
  assumes "\<forall>p\<in>set pre. \<not> has_tag RES_DONE p" and "dump_onDumpKeys st"
  shows "foldl listAccounts_data st pre =
    st\<lparr>dump_res := dump_res st @ map tl (filter (has_tag RES_DUMP_KEYS) pre)\<rparr>"
  using assms
proof (induction pre arbitrary: st)
  case Nil
  show ?case by simp
next
  case (Cons p pre)
  have step: "listAccounts_data st p =
      st\<lparr>dump_res := dump_res st @ (if has_tag RES_DUMP_KEYS p then [tl p] else [])\<rparr>"
    using Cons.prems by (simp add: listAccounts_data_step)
  have "foldl listAccounts_data (listAccounts_data st p) pre =
      (listAccounts_data st p)\<lparr>dump_res := dump_res (listAccounts_data st p)
         @ map tl (filter (has_tag RES_DUMP_KEYS) pre)\<rparr>"
    using Cons.prems by (intro Cons.IH) (simp_all add: step)
  then show ?case by (simp add: step)
qed

lemma listAccounts_data_closed:
  assumes "\<not> dump_onDumpKeys st" and "\<not> dump_onDone st"
  shows "listAccounts_data st p = st"
proof (cases "on_data p")
  case None
  then show ?thesis by (simp add: listAccounts_data_def)
next
  case (Some ev)
  with assms show ?thesis by (cases ev) (simp_all add: listAccounts_data_def)
qed

lemma listAccounts_fold_closed:
  "\<not> dump_onDumpKeys st \<Longrightarrow> \<not> dump_onDone st \<Longrightarrow> foldl listAccounts_data st later = st"
  by (induction later) (simp_all add: listAccounts_data_closed)

lemma listAccounts_run:
  assumes "\<forall>p\<in>set pre. \<not> has_tag RES_DONE p" and "has_tag RES_DONE d"
  shows "listAccounts (pre @ d # later) =
    Some (concat (map spec_entries (map tl (filter (has_tag RES_DUMP_KEYS) pre))))"
proof -
  define st where
    "st = listAccounts_start\<lparr>dump_res := map tl (filter (has_tag RES_DUMP_KEYS) pre)\<rparr>"
  define st' where "st' = st\<lparr>dump_onDumpKeys := False, dump_onDone := False,
      dump_resolved := Some (listAccounts_done (dump_res st))\<rparr>"
  have pre: "foldl listAccounts_data listAccounts_start pre = st"
    using listAccounts_fold_pre [OF assms(1), of listAccounts_start]
    by (simp add: listAccounts_start_def st_def)
  have "on_data d = Some Ev_done" using assms(2) by (simp add: on_data_done_iff)
  then have d: "listAccounts_data st d = st'"
    by (simp add: listAccounts_data_def st_def st'_def listAccounts_start_def)
  have "foldl listAccounts_data st' later = st'"
    by (rule listAccounts_fold_closed) (simp_all add: st'_def)
  then have "foldl listAccounts_data listAccounts_start (pre @ d # later) = st'"
    by (simp add: pre d)
  then show ?thesis
    by (simp add: listAccounts_def st'_def st_def listAccounts_done_spec)
qed

lemma example_packets:
  assumes "length A = 20" and "length B = 20"
  shows "listAccounts [RES_DUMP_KEYS # 1 # A @ 0xFF # rest, RES_DUMP_KEYS # 2 # B, [RES_DONE]]
    = Some [\<lparr>index = 1, address = ''0x'' @ toString_hex A\<rparr>,
            \<lparr>index = 2, address = ''0x'' @ toString_hex B\<rparr>]"
proof -
  have "listAccounts ([RES_DUMP_KEYS # 1 # A @ 0xFF # rest, RES_DUMP_KEYS # 2 # B] @ [RES_DONE] # [])
    = Some (concat (map spec_entries (map tl (filter (has_tag RES_DUMP_KEYS)
        [RES_DUMP_KEYS # 1 # A @ 0xFF # rest, RES_DUMP_KEYS # 2 # B]))))"
    by (rule listAccounts_run) (simp_all add: has_tag_def RES_DUMP_KEYS_def RES_DONE_def)
  then show ?thesis using assms by (simp add: has_tag_def)
qed

text \<open>
  Claim C6. For the packets received up to the first DONE packet, \<open>listAccounts\<close>
  resolves with the entries of the payloads of the DUMP_KEYS packets, concatenated in
  arrival order, where the entries of one payload are read left to right as one
  index byte and 20 address bytes, up to the first index byte \<open>0xFF\<close> or the end of the
  payload. In particular a packet holding the entry \<open>(1, A)\<close> and then \<open>0xFF\<close>, followed
  by a packet whose payload is the entry \<open>(2, B)\<close>, followed by DONE, gives the two
  accounts in that order.
\<close>

theorem listAccounts_reassembly:
  assumes "\<forall>p\<in>set pre. \<not> has_tag RES_DONE p"
    and "has_tag RES_DONE d"
  shows "listAccounts (pre @ d # later) =
      Some (concat (map (\<lambda>p. spec_entries (tl p)) (filter (has_tag RES_DUMP_KEYS) pre)))
    \<and> (\<forall>A B rest. length A = 20 \<and> length B = 20 \<longrightarrow>
         listAccounts [RES_DUMP_KEYS # 1 # A @ 0xFF # rest, RES_DUMP_KEYS # 2 # B, [RES_DONE]]
           = Some [\<lparr>index = 1, address = ''0x'' @ toString_hex A\<rparr>,
                   \<lparr>index = 2, address = ''0x'' @ toString_hex B\<rparr>])"
  using listAccounts_run [OF assms, of later] example_packets
  by (simp add: comp_def)

theorem listAccounts_reassembly_witness:
  "listAccounts ([RES_DUMP_KEYS # 1 # replicate 20 0xAA @ 0xFF # replicate 41 0,
                  RES_SIGN # replicate 63 9,
                  RES_DUMP_KEYS # 2 # replicate 20 0xBB @ 3 # replicate 20 0xCC @ 0xFF # replicate 20 0]
                 @ [RES_DONE] # [[RES_DUMP_KEYS, 4]])
     = Some [\<lparr>index = 1, address = ''0x'' @ toString_hex (replicate 20 0xAA)\<rparr>,
             \<lparr>index = 2, address = ''0x'' @ toString_hex (replicate 20 0xBB)\<rparr>,
             \<lparr>index = 3, address = ''0x'' @ toString_hex (replicate 20 0xCC)\<rparr>]"
  using listAccounts_reassembly [of "[RES_DUMP_KEYS # 1 # replicate 20 0xAA @ 0xFF # replicate 41 0,
                  RES_SIGN # replicate 63 9,
                  RES_DUMP_KEYS # 2 # replicate 20 0xBB @ 3 # replicate 20 0xCC @ 0xFF # replicate 20 0]"
      "[RES_DONE]" "[[RES_DUMP_KEYS, 4]]"]
  by (simp add: has_tag_def RES_DUMP_KEYS_def RES_SIGN_def RES_DONE_def)

section \<open>Properties of the account directory and the signer\<close>

lemma toLowerCase_Nil_iff: "toLowerCase addr = [] \<longleftrightarrow> addr = []"
  by (simp add: toLowerCase_def)

lemma find_assign_nonempty:
  "a \<noteq> [] \<Longrightarrow> find_assign a (acc # rest) = (Some (acc\<lparr>address := a\<rparr>), acc\<lparr>address := a\<rparr> # rest)"
  by (simp add: Let_def)

lemma find_assign_empty:
  "find_assign [] accs = (None, map (\<lambda>acc. acc\<lparr>address := []\<rparr>) accs)"
  by (induction accs) (simp_all add: Let_def)

lemma getAddressIndex_accounts:
  assumes "accounts w = Some (a # rest)"
  shows "snd (getAddressIndex addr w) =
    w\<lparr>accounts := Some (if toLowerCase addr = []
                        then map (\<lambda>acc. acc\<lparr>address := []\<rparr>) (a # rest)
                        else a\<lparr>address := toLowerCase addr\<rparr> # rest)\<rparr>"
proof (cases "toLowerCase addr = []")
  case True
  then show ?thesis
    using assms by (simp add: getAddressIndex_def find_assign_empty)
next
  case False
  then show ?thesis
    using assms by (simp add: getAddressIndex_def Let_def)
qed

lemma getAddressIndex_result:
  assumes "accounts w = Some (a # rest)" and "addr \<noteq> []"
  shows "fst (getAddressIndex addr w) = Inr (index a)"
  using assms by (simp add: getAddressIndex_def Let_def toLowerCase_Nil_iff)

lemma toLowerCase_examples:
  "toLowerCase ''0xBB'' = ''0xbb''" "toLowerCase ''0xcc'' = ''0xcc''" "toLowerCase ''0xAA'' = ''0xaa''"
  by code_simp+

text \<open>
  Claim C1 asks for the slot of the account whose address matches, and for a not-found
  error when none matches. On a directory of two accounts the lookup of the second
  account's address returns the slot of the first account, and so does the lookup of
  an address that no account has.
\<close>

theorem getAddressIndex_returns_first_slot:
  "fst (getAddressIndex ''0xBB''
      \<lparr>accounts = Some [\<lparr>index = 1, address = ''0xaa''\<rparr>, \<lparr>index = 2, address = ''0xbb''\<rparr>],
       written = []\<rparr>) = Inr 1
   \<and> fst (getAddressIndex ''0xcc''
      \<lparr>accounts = Some [\<lparr>index = 1, address = ''0xaa''\<rparr>, \<lparr>index = 2, address = ''0xbb''\<rparr>],
       written = []\<rparr>) = Inr 1"
  by (simp add: getAddressIndex_def toLowerCase_examples Let_def)

text \<open>
  Claim C9 says that every lookup on a non-empty directory leaves the directory
  changed. A lookup of the address that the first account already has, in lower case,
  leaves the wallet as it was.
\<close>

theorem getAddressIndex_unchanged_directory:
  "snd (getAddressIndex ''0xAA'' \<lparr>accounts = Some [\<lparr>index = 1, address = ''0xaa''\<rparr>], written = []\<rparr>)
     = \<lparr>accounts = Some [\<lparr>index = 1, address = ''0xaa''\<rparr>], written = []\<rparr>"
  by (simp add: getAddressIndex_def toLowerCase_examples Let_def)

text \<open>
  Claim C9, amended. On a non-empty directory \<open>getAddressIndex\<close> assigns the
  lower-cased queried address to the address field of the first account (and, when
  the queried address is empty, to every account). The directory is therefore changed
  whenever the first account's address differs from the lower-cased queried address,
  and the wallet is left as it was when the queried address is not empty and the
  first account already has it.
\<close>

theorem getAddressIndex_overwrites_first:
  assumes "accounts w = Some (a # rest)"
  shows "accounts (snd (getAddressIndex addr w)) =
           Some (if addr = [] then map (\<lambda>acc. acc\<lparr>address := []\<rparr>) (a # rest)
                 else a\<lparr>address := toLowerCase addr\<rparr> # rest)
       \<and> (address a \<noteq> toLowerCase addr \<longrightarrow> accounts (snd (getAddressIndex addr w)) \<noteq> accounts w)
       \<and> (addr \<noteq> [] \<and> address a = toLowerCase addr \<longrightarrow> snd (getAddressIndex addr w) = w)"
proof -
  have eq: "snd (getAddressIndex addr w) =
    w\<lparr>accounts := Some (if addr = []
                        then map (\<lambda>acc. acc\<lparr>address := []\<rparr>) (a # rest)
                        else a\<lparr>address := toLowerCase addr\<rparr> # rest)\<rparr>"
    using getAddressIndex_accounts [OF assms, of addr] by (simp add: toLowerCase_Nil_iff)
  have "a\<lparr>address := toLowerCase addr\<rparr> \<noteq> a" if "address a \<noteq> toLowerCase addr"
  proof
    assume "a\<lparr>address := toLowerCase addr\<rparr> = a"
    then have "address (a\<lparr>address := toLowerCase addr\<rparr>) = address a" by simp
    with that show False by simp
  qed
  moreover have "a\<lparr>address := toLowerCase addr\<rparr> = a" if "address a = toLowerCase addr"
    using that by simp
  moreover have "w\<lparr>accounts := Some (a # rest)\<rparr> = w"
    using assms by simp
  ultimately show ?thesis
    unfolding eq using assms by (auto simp: toLowerCase_Nil_iff toLowerCase_def)
qed

theorem getAddressIndex_overwrites_first_witness:
  "accounts (snd (getAddressIndex ''0xBB''
      \<lparr>accounts = Some [\<lparr>index = 1, address = ''0xaa''\<rparr>, \<lparr>index = 2, address = ''0xbb''\<rparr>],
       written = []\<rparr>))
    = Some [\<lparr>index = 1, address = ''0xbb''\<rparr>, \<lparr>index = 2, address = ''0xbb''\<rparr>]
   \<and> accounts (snd (getAddressIndex ''0xBB''
      \<lparr>accounts = Some [\<lparr>index = 1, address = ''0xaa''\<rparr>, \<lparr>index = 2, address = ''0xbb''\<rparr>],
       written = []\<rparr>))
    \<noteq> Some [\<lparr>index = 1, address = ''0xaa''\<rparr>, \<lparr>index = 2, address = ''0xbb''\<rparr>]"
  using getAddressIndex_overwrites_first [of
      "\<lparr>accounts = Some [\<lparr>index = 1, address = ''0xaa''\<rparr>, \<lparr>index = 2, address = ''0xbb''\<rparr>],
        written = []\<rparr>" "\<lparr>index = 1, address = ''0xaa''\<rparr>" "[\<lparr>index = 2, address = ''0xbb''\<rparr>]" "''0xBB''"]
  by (simp add: toLowerCase_examples)

text \<open>
  Claim C10. When the global object has no property \<open>address\<close>, every call of
  \<open>deleteAddress\<close>, in every wallet state, raises a ReferenceError and leaves the wallet
  as it was; in particular no DELETE request is written to the device.
\<close>

theorem deleteAddress_throws:
  assumes "globalThis ''address'' = None"
  shows "deleteAddress globalThis w = (Inl (ReferenceError ''address''), w)
    \<and> written (snd (deleteAddress globalThis w)) = written w"
  using assms by (simp add: deleteAddress_def)

theorem deleteAddress_throws_witness:
  "deleteAddress Map.empty \<lparr>accounts = Some [\<lparr>index = 1, address = ''0xaa''\<rparr>], written = []\<rparr>
     = (Inl (ReferenceError ''address''),
        \<lparr>accounts = Some [\<lparr>index = 1, address = ''0xaa''\<rparr>], written = []\<rparr>)"
  using deleteAddress_throws [of Map.empty
      "\<lparr>accounts = Some [\<lparr>index = 1, address = ''0xaa''\<rparr>], written = []\<rparr>"]
  by simp

lemma normalize_s_low:
  "length s = 32 \<Longrightarrow> bn_of_buffer s \<le> secp256k1halfN \<Longrightarrow> normalize_s s = s"
  by (simp add: normalize_s_def setLengthLeft_same)

lemma run_lengths: "length run_r = 32" "length run_s = 32"
  by (simp_all add: run_r_def run_s_def)

lemma run_s_low: "bn_of_buffer run_s \<le> secp256k1halfN"
  by (simp add: bn_of_buffer_def run_s_def secp256k1halfN_def secp256k1N_def)

lemma run_sign: "sign run_packets = Some (Inr (run_r @ run_s))"
  using sign_run [of "[RES_SIGN # run_r @ replicate 31 0, RES_SIGN # run_s @ replicate 31 0]"
      "RES_DONE # replicate 63 0" "[]"]
  by (simp add: run_packets_def has_tag_def RES_SIGN_def RES_DONE_def sign_done_def slice_def
      run_lengths)

lemma run_lower: "toLowerCase run_target = run_target"
  unfolding run_target_def by code_simp

lemma run_getAddressIndex:
  "getAddressIndex run_target run_wallet =
     (Inr 1, run_wallet\<lparr>accounts :=
        Some [\<lparr>index = 1, address = run_target\<rparr>,
              \<lparr>index = 2, address = ''0x2b5ad5c4795c026514f8317c7a215e218dccd6cf''\<rparr>]\<rparr>)"
proof -
  have "run_target \<noteq> []" by (simp add: run_target_def)
  then show ?thesis
    by (simp add: getAddressIndex_def run_lower Let_def run_wallet_def)
qed

text \<open>
  Claim C2 asks for a signing-integrity error when neither candidate reproduces the
  target address. Whenever the lookup, the device and the two library calls return
  and the address recovered at \<open>v = 27\<close> differs from the checksum-normalized target,
  \<open>Wallet.sign\<close> returns \<open>(r, s, 28)\<close>: the address recovered at \<open>v = 28\<close> is computed
  and never compared, so the result is the same when it differs from the target too.
\<close>

theorem Wallet_sign_no_match:
  assumes "getAddressIndex addr w = (Inr i, w')"
    and "sign packets = Some (Inr signature)"
    and "recoverAddress txHash 27 (setLengthLeft (slice 0 32 signature) 32)
           (normalize_s (slice 32 64 signature)) = Inr a27"
    and "recoverAddress txHash 28 (setLengthLeft (slice 0 32 signature) 32)
           (normalize_s (slice 32 64 signature)) = Inr a28"
    and "getAddress addr = Inr target"
    and "target \<noteq> a27"
  shows "Wallet_sign getAddress recoverAddress txHash packets addr w =
    (Some (Inr (setLengthLeft (slice 0 32 signature) 32,
                normalize_s (slice 32 64 signature), 28)), w')"
  using assms by (simp add: Wallet_sign_def Let_def)

text \<open>
  In the signing run above the lookup returns slot 1 whatever the address, the
  signature is by the key of slot 1, and neither recovered address is the target:
  the call returns \<open>v = 28\<close> all the same.
\<close>

theorem Wallet_sign_no_match_witness:
  "fst (Wallet_sign run_getAddress run_recoverAddress run_txHash run_packets run_target run_wallet)
     = Some (Inr (run_r, run_s, 28))
   \<and> run_recoverAddress run_txHash 27 run_r run_s = Inr ''0xf8B2A768306e06217C53a86645704E0adE91885C''
   \<and> run_recoverAddress run_txHash 28 run_r run_s = Inr ''0x7E5F4552091A69125d5DfCb7b8C2659029395Bdf''
   \<and> run_getAddress run_target = Inr ''0x2B5AD5c4795c026514f8317c7a215E218DcCD6cF''"
proof -
  have r: "setLengthLeft (slice 0 32 (run_r @ run_s)) 32 = run_r"
    by (simp add: slice_def setLengthLeft_same run_lengths)
  have s: "normalize_s (slice 32 64 (run_r @ run_s)) = run_s"
    by (simp add: slice_def run_lengths normalize_s_low run_s_low)
  have r27: "run_recoverAddress run_txHash 27 run_r run_s = Inr ''0xf8B2A768306e06217C53a86645704E0adE91885C''"
    by (simp add: run_recoverAddress_def)
  have r28: "run_recoverAddress run_txHash 28 run_r run_s = Inr ''0x7E5F4552091A69125d5DfCb7b8C2659029395Bdf''"
    by (simp add: run_recoverAddress_def)
  have g: "run_getAddress run_target = Inr ''0x2B5AD5c4795c026514f8317c7a215E218DcCD6cF''"
    by (simp add: run_getAddress_def)
  have ne: "''0x2B5AD5c4795c026514f8317c7a215E218DcCD6cF'' \<noteq> ''0xf8B2A768306e06217C53a86645704E0adE91885C''"
    by simp
  show ?thesis
    using Wallet_sign_no_match [OF run_getAddressIndex run_sign, of run_recoverAddress run_txHash
        "''0xf8B2A768306e06217C53a86645704E0adE91885C''"
        "''0x7E5F4552091A69125d5DfCb7b8C2659029395Bdf''" run_getAddress
        "''0x2B5AD5c4795c026514f8317c7a215E218DcCD6cF''"]
    by (simp add: r s r27 r28 g)
qed

end
